theory Spec2Isabelle
  imports Complex_Main "HOL-Library.Log_Nat"
begin

section \<open>Constants of main.py\<close>

definition INPUT_PANEL_HEIGHT :: int where
  "INPUT_PANEL_HEIGHT = 12"

definition HISTORY_MAX :: nat where
  "HISTORY_MAX = 200"

definition INDENT_Y :: int where
  "INDENT_Y = 1"

definition SWAP_PAGE_KEYS :: bool where
  "SWAP_PAGE_KEYS = True"

text \<open>
  The two values the render code computes from the constants at the top of every loop
  iteration: \<^verbatim>\<open>hist_start_y = INDENT_Y + 7\<close> and
  \<^verbatim>\<open>available_lines = INPUT_PANEL_HEIGHT - hist_start_y - 1\<close>.
\<close>

definition hist_start_y :: int where
  "hist_start_y = INDENT_Y + 7"

definition available_lines :: int where
  "available_lines = INPUT_PANEL_HEIGHT - hist_start_y - 1"

text \<open>The key codes of the curses library that the dispatch compares against.\<close>

definition KEY_DOWN :: int where "KEY_DOWN = 258"
definition KEY_UP :: int where "KEY_UP = 259"
definition KEY_BACKSPACE :: int where "KEY_BACKSPACE = 263"
definition KEY_NPAGE :: int where "KEY_NPAGE = 338"
definition KEY_PPAGE :: int where "KEY_PPAGE = 339"
definition KEY_ENTER :: int where "KEY_ENTER = 343"


section \<open>The Python built-ins the program calls\<close>

subsection \<open>Floats: true division, multiplication and \<^verbatim>\<open>round\<close>\<close>

text \<open>
  A Python float is an IEEE 754 binary64 number. A finite one is modelled by the rational
  it denotes. \<open>fl q\<close> is the binary64 number nearest to \<open>q\<close>, ties to the even
  significand: the significand has 53 bits, so the spacing in the binade
  \<open>[2^e, 2^(e+1))\<close> is \<open>2^(e-52)\<close>, and it is \<open>2^(-1074)\<close> for subnormal numbers.
  Overflow to infinity is not modelled: no operand of the program exceeds 1000 in
  magnitude.
\<close>

definition round_half_even :: "rat \<Rightarrow> int" where
  "round_half_even q =
     (let f = \<lfloor>q\<rfloor>; d = q - of_int f
      in if d < 1 / 2 then f else if 1 / 2 < d then f + 1 else if even f then f else f + 1)"

definition pow2 :: "int \<Rightarrow> rat" where
  "pow2 e = (if 0 \<le> e then 2 ^ nat e else 1 / 2 ^ nat (- e))"

definition binade :: "rat \<Rightarrow> int" where
  "binade q =
     (let a = \<bar>q\<bar>
      in if 1 \<le> a then bitlen \<lfloor>a\<rfloor> - 1 else - bitlen (\<lceil>1 / a\<rceil> - 1))"

definition fl :: "rat \<Rightarrow> rat" where
  "fl q =
     (if q = 0 then 0
      else let u = pow2 (max (binade q - 52) (- 1074))
           in of_int (round_half_even (q / u)) * u)"

text \<open>
  \<^verbatim>\<open>a / b\<close> on two ints is the correctly rounded quotient, \<^verbatim>\<open>x * k\<close> on a
  float and an int is the correctly rounded product (the int converts exactly), and
  \<^verbatim>\<open>round(x)\<close> with one argument returns the nearest int, ties to even.
\<close>

definition py_truediv :: "int \<Rightarrow> int \<Rightarrow> rat" where
  "py_truediv a b = fl (of_int a / of_int b)"

definition py_fmul :: "rat \<Rightarrow> int \<Rightarrow> rat" where
  "py_fmul x k = fl (x * of_int k)"

definition py_round :: "rat \<Rightarrow> int" where
  "py_round x = round_half_even x"

text \<open>Rounding to nearest with ties away from zero, the rule the specification names.\<close>

definition round_half_away :: "rat \<Rightarrow> int" where
  "round_half_away q = (if 0 \<le> q then \<lfloor>q + 1 / 2\<rfloor> else \<lceil>q - 1 / 2\<rceil>)"

subsection \<open>Strings\<close>

text \<open>
  Strings are modelled as ASCII text (the loop appends key codes 32 to 126 only).
  \<^verbatim>\<open>str.strip\<close> and \<^verbatim>\<open>str.split\<close> treat the code points 9 to 13 and 28 to 32 as
  whitespace; \<^verbatim>\<open>int\<close> skips only 9 to 13 and 32 around an ASCII literal.
\<close>

definition is_py_space :: "char \<Rightarrow> bool" where
  "is_py_space c = (let n = (of_char c :: nat) in (9 \<le> n \<and> n \<le> 13) \<or> (28 \<le> n \<and> n \<le> 32))"

definition is_c_space :: "char \<Rightarrow> bool" where
  "is_c_space c = (let n = (of_char c :: nat) in (9 \<le> n \<and> n \<le> 13) \<or> n = 32)"

definition lstrip_chars :: "char \<Rightarrow> string \<Rightarrow> string" where
  "lstrip_chars ch s = dropWhile (\<lambda>c. c = ch) s"

definition strip :: "string \<Rightarrow> string" where
  "strip s = rev (dropWhile is_py_space (rev (dropWhile is_py_space s)))"

fun split_ws :: "string \<Rightarrow> string \<Rightarrow> string list" where
  "split_ws cur [] = (if cur = [] then [] else [cur])"
| "split_ws cur (c # cs) =
     (if is_py_space c then (if cur = [] then split_ws [] cs else cur # split_ws [] cs)
      else split_ws (cur @ [c]) cs)"

definition split :: "string \<Rightarrow> string list" where
  "split s = split_ws [] s"

definition startswith :: "string \<Rightarrow> string \<Rightarrow> bool" where
  "startswith s p = (take (length p) s = p)"

subsection \<open>\<^verbatim>\<open>int(s, base)\<close>\<close>

text \<open>
  The digit table of the interpreter: 0 to 9, then the letters in either case as 10 to 35,
  and 37 for every other character.
\<close>

definition digit_val :: "char \<Rightarrow> nat" where
  "digit_val c =
     (let n = (of_char c :: nat)
      in if 48 \<le> n \<and> n \<le> 57 then n - 48
         else if 97 \<le> n \<and> n \<le> 122 then n - 87
         else if 65 \<le> n \<and> n \<le> 90 then n - 55
         else 37)"

definition digit_or_underscore :: "nat \<Rightarrow> char \<Rightarrow> bool" where
  "digit_or_underscore base c = (digit_val c < base \<or> c = CHR ''_'')"

fun double_underscore :: "string \<Rightarrow> bool" where
  "double_underscore (a # b # cs) =
     ((a = CHR ''_'' \<and> b = CHR ''_'') \<or> double_underscore (b # cs))"
| "double_underscore cs = False"

definition digits_value :: "nat \<Rightarrow> string \<Rightarrow> nat" where
  "digits_value base ds = foldl (\<lambda>acc c. acc * base + digit_val c) 0 ds"

text \<open>
  \<open>py_int base s\<close> for base 10 or 16: leading whitespace, an optional sign, for base 16
  an optional \<^verbatim>\<open>0x\<close> prefix (after which one underscore may stand), then digits with
  single underscores between them, then whitespace up to the end. \<open>None\<close> is ValueError.
\<close>

definition py_int :: "nat \<Rightarrow> string \<Rightarrow> int option" where
  "py_int base s =
     (let s1 = dropWhile is_c_space s;
          neg = (take 1 s1 = ''-'');
          s2 = (if take 1 s1 = ''+'' \<or> take 1 s1 = ''-'' then drop 1 s1 else s1);
          s3 = (if base = 16 \<and> (take 2 s2 = ''0x'' \<or> take 2 s2 = ''0X'')
                then (if take 1 (drop 2 s2) = ''_'' then drop 3 s2 else drop 2 s2)
                else s2);
          body = takeWhile (digit_or_underscore base) s3;
          rest = dropWhile (digit_or_underscore base) s3
      in if body = [] \<or> take 1 body = ''_'' \<or> last body = CHR ''_'' \<or> double_underscore body
            \<or> \<not> list_all is_c_space rest
         then None
         else let n = int (digits_value base (filter (\<lambda>c. c \<noteq> CHR ''_'') body))
              in Some (if neg then - n else n))"

subsection \<open>The format specification \<^verbatim>\<open>02x\<close>\<close>

definition hex_digit :: "nat \<Rightarrow> char" where
  "hex_digit d = ''0123456789abcdef'' ! d"

fun hex_digits :: "nat \<Rightarrow> string" where
  "hex_digits n = (if n < 16 then [hex_digit n] else hex_digits (n div 16) @ [hex_digit (n mod 16)])"

declare hex_digits.simps [simp del]

definition zero_pad :: "nat \<Rightarrow> string \<Rightarrow> string" where
  "zero_pad w s = replicate (w - length s) (CHR ''0'') @ s"

definition fmt_02x :: "int \<Rightarrow> string" where
  "fmt_02x n =
     (if n < 0 then CHR ''-'' # zero_pad 1 (hex_digits (nat (- n)))
      else zero_pad 2 (hex_digits (nat n)))"

subsection \<open>List indexing\<close>

text \<open>\<^verbatim>\<open>xs[i]\<close>: a negative index counts from the end, \<open>None\<close> is IndexError.\<close>

definition py_getitem :: "'a list \<Rightarrow> int \<Rightarrow> 'a option" where
  "py_getitem xs i =
     (let n = int (length xs); j = (if i < 0 then n + i else i)
      in if 0 \<le> j \<and> j < n then Some (xs ! nat j) else None)"


section \<open>The colour codec\<close>

datatype error =
    InvalidFormat
  | InvalidDigits
  | OutOfRange
  | NeedThreeNumbers
  | InvalidLiteral string
  | IndexError

text \<open>
  The three \<^verbatim>\<open>ValueError\<close>s of the codec carry different messages; they are the
  constructors \<open>InvalidFormat\<close> (the length is not 6), \<open>InvalidDigits\<close> (a pair is
  rejected by \<^verbatim>\<open>int(_, 16)\<close>) and \<open>OutOfRange\<close>.
  \<open>chan_1000\<close> is \<^verbatim>\<open>round(r / 255 * 1000)\<close> and \<open>chan_255\<close> is
  \<^verbatim>\<open>round(r / 1000 * 255)\<close>.
\<close>

definition chan_1000 :: "int \<Rightarrow> int" where
  "chan_1000 c = py_round (py_fmul (py_truediv c 255) 1000)"

definition chan_255 :: "int \<Rightarrow> int" where
  "chan_255 v = py_round (py_fmul (py_truediv v 1000) 255)"

definition hex_to_1000 :: "string \<Rightarrow> error + int \<times> int \<times> int" where
  "hex_to_1000 hex_color =
     (let h = lstrip_chars (CHR ''#'') hex_color
      in if length h \<noteq> 6 then Inl InvalidFormat
         else case py_int 16 (take 2 h) of
                None \<Rightarrow> Inl InvalidDigits
              | Some r \<Rightarrow>
                 (case py_int 16 (take 2 (drop 2 h)) of
                    None \<Rightarrow> Inl InvalidDigits
                  | Some g \<Rightarrow>
                     (case py_int 16 (take 2 (drop 4 h)) of
                        None \<Rightarrow> Inl InvalidDigits
                      | Some b \<Rightarrow> Inr (chan_1000 r, chan_1000 g, chan_1000 b))))"

definition rgb1000_to_hex :: "int \<Rightarrow> int \<Rightarrow> int \<Rightarrow> error + string" where
  "rgb1000_to_hex r g b =
     (if \<not> (0 \<le> r \<and> r \<le> 1000 \<and> 0 \<le> g \<and> g \<le> 1000 \<and> 0 \<le> b \<and> b \<le> 1000)
      then Inl OutOfRange
      else Inr (CHR ''#'' # fmt_02x (chan_255 r) @ fmt_02x (chan_255 g) @ fmt_02x (chan_255 b)))"


section \<open>The history store\<close>

text \<open>
  The history is a list of hex strings, newest first. The Enter handler inserts with
  \<^verbatim>\<open>if not history or history[0] != hex_color_str: history.insert(0, hex_color_str)\<close>
  followed by \<^verbatim>\<open>history = history[:HISTORY_MAX]\<close>.
\<close>

definition history_insert :: "'a \<Rightarrow> 'a list \<Rightarrow> 'a list" where
  "history_insert hex_color_str history =
     take HISTORY_MAX
       (case history of
          [] \<Rightarrow> [hex_color_str]
        | newest # _ \<Rightarrow> if newest \<noteq> hex_color_str then hex_color_str # history else history)"


text \<open>
  The status messages. The program builds them as Russian text; each constructor stands
  for one format string and carries the values interpolated into it.
\<close>

datatype msg =
    NoMessage
  | MsgEmptyInput
  | MsgHexToRgb string int int int
  | MsgRgbToHex int int int string
  | MsgError error
  | MsgCopied string
  | MsgCopyError string
  | MsgNoClipboard
  | MsgNothingToCopy
  | MsgSaved
  | MsgSaveError string
  | MsgNotFound
  | MsgWrongFormat
  | MsgLoaded
  | MsgLoadError string
  | MsgCleared
  | MsgGlobalError error

text \<open>
  What \<^verbatim>\<open>json.load\<close> returns, as far as the program looks at it: a list (of entries
  of any type \<open>'a\<close>, which the program never inspects) or a value of another kind.
  The file is absent, or opening, decoding or parsing it raises an exception with some
  text, or it holds a document.
\<close>

datatype 'a json_doc =
    JArray "'a list"
  | JObject
  | JString string
  | JNumber int
  | JBool bool
  | JNull

datatype 'a file_state = Absent | ReadFails string | Holds "'a json_doc"

definition load_history_from_file :: "'a file_state \<Rightarrow> 'a list \<times> msg" where
  "load_history_from_file f =
     (case f of
        Absent \<Rightarrow> ([], MsgNotFound)
      | ReadFails e \<Rightarrow> ([], MsgLoadError e)
      | Holds (JArray data) \<Rightarrow> (take HISTORY_MAX data, MsgLoaded)
      | Holds _ \<Rightarrow> ([], MsgWrongFormat))"

text \<open>Saving: the argument is the exception raised while writing, if any.\<close>

definition save_history_to_file :: "string option \<Rightarrow> bool \<times> msg" where
  "save_history_to_file write_error =
     (case write_error of None \<Rightarrow> (True, MsgSaved) | Some e \<Rightarrow> (False, MsgSaveError e))"


section \<open>The interaction loop\<close>

text \<open>
  The local variables of \<^verbatim>\<open>main\<close> that persist across iterations. \<open>color_panel\<close>
  is the hex string the colour panel was last asked to show (\<open>None\<close>: the panel shows
  the "No color" label). \<open>message_attr\<close> is the number of the colour pair: 1 plain,
  2 error, 3 success. The history entries of the loop are strings.
\<close>

record state =
  current_input :: string
  message :: msg
  message_attr :: nat
  last_hex :: "string option"
  history :: "string list"
  history_index :: "int option"
  history_view_start :: int
  color_panel :: "string option"

text \<open>
  What a key handler reads from outside the program: the history file, the outcome of
  writing it, whether pyperclip was imported, and the outcome of a clipboard copy.
\<close>

record env =
  hist_file :: "string file_state"
  write_error :: "string option"
  CLIP_AVAILABLE :: bool
  copy_error :: "string option"

definition init_state :: state where
  "init_state =
     \<lparr>current_input = [], message = NoMessage, message_attr = 1, last_hex = None,
      history = [], history_index = None, history_view_start = 0, color_panel = None\<rparr>"

definition draw_color_panel :: "string option \<Rightarrow> state \<Rightarrow> state" where
  "draw_color_panel hex_color_str s =
     s\<lparr>color_panel := (case hex_color_str of
                          None \<Rightarrow> None
                        | Some h \<Rightarrow> if h = [] then None else Some h)\<rparr>"

text \<open>The clamp of the view window that the render code performs before drawing.\<close>

definition render :: "state \<Rightarrow> state" where
  "render s =
     (let s1 = (if history_view_start s < 0 then s\<lparr>history_view_start := 0\<rparr> else s);
          m = max 0 (int (length (history s1)) - available_lines)
      in if history_view_start s1 > m then s1\<lparr>history_view_start := m\<rparr> else s1)"

text \<open>The handler of the outermost \<^verbatim>\<open>except Exception\<close> of the loop body.\<close>

definition global_error :: "error \<Rightarrow> state \<Rightarrow> state" where
  "global_error e s = s\<lparr>message := MsgGlobalError e, message_attr := 2, current_input := []\<rparr>"

subsection \<open>Enter\<close>

fun parse_ints :: "string list \<Rightarrow> error + int list" where
  "parse_ints [] = Inr []"
| "parse_ints (t # ts) =
     (case py_int 10 t of
        None \<Rightarrow> Inl (InvalidLiteral t)
      | Some n \<Rightarrow> (case parse_ints ts of Inl e \<Rightarrow> Inl e | Inr ns \<Rightarrow> Inr (n # ns)))"

text \<open>
  The first part of the \<^verbatim>\<open>try\<close> block: the hex string to record and the success
  message, or the exception raised.
\<close>

definition convert_input :: "string \<Rightarrow> error + string \<times> msg" where
  "convert_input inp =
     (let t = strip inp
      in if startswith t ''#''
         then (case hex_to_1000 t of
                 Inl e \<Rightarrow> Inl e
               | Inr (r, g, b) \<Rightarrow> Inr (t, MsgHexToRgb t r g b))
         else (case parse_ints (split t) of
                 Inl e \<Rightarrow> Inl e
               | Inr parts \<Rightarrow>
                  (case parts of
                     [r, g, b] \<Rightarrow>
                       (case rgb1000_to_hex r g b of
                          Inl e \<Rightarrow> Inl e
                        | Inr h \<Rightarrow> Inr (h, MsgRgbToHex r g b h))
                   | _ \<Rightarrow> Inl NeedThreeNumbers)))"

definition key_enter :: "state \<Rightarrow> state" where
  "key_enter s =
     (if strip (current_input s) = []
      then s\<lparr>message := MsgEmptyInput, message_attr := 2\<rparr>
      else case convert_input (current_input s) of
             Inl e \<Rightarrow> s\<lparr>message := MsgError e, message_attr := 2, current_input := []\<rparr>
           | Inr (hex_color_str, m) \<Rightarrow>
               (draw_color_panel (Some hex_color_str)
                  (s\<lparr>message := m, last_hex := Some hex_color_str,
                     history := history_insert hex_color_str (history s),
                     history_index := None, history_view_start := 0,
                     message_attr := 3\<rparr>))
               \<lparr>current_input := []\<rparr>)"

subsection \<open>Backspace and printable characters\<close>

definition key_backspace :: "state \<Rightarrow> state" where
  "key_backspace s =
     s\<lparr>current_input := butlast (current_input s), history_index := None,
       message := NoMessage, message_attr := 1\<rparr>"

definition key_printable :: "int \<Rightarrow> state \<Rightarrow> state" where
  "key_printable key s =
     (if 32 \<le> key \<and> key \<le> 126
      then s\<lparr>current_input := current_input s @ [char_of key], history_index := None,
             message := NoMessage, message_attr := 1\<rparr>
      else s)"

subsection \<open>History navigation\<close>

text \<open>
  The selected entry is copied into the input and the view window follows the cursor.
  \<open>show_selected i s\<close> is the common tail of both arrow handlers; \<open>s\<close> already has
  the new cursor.
\<close>

definition show_selected :: "int \<Rightarrow> state \<Rightarrow> state" where
  "show_selected i s =
     (case py_getitem (history s) i of
        None \<Rightarrow> global_error IndexError s
      | Some h \<Rightarrow>
          (let s1 = s\<lparr>current_input := h\<rparr>;
               s2 = (if i < history_view_start s1 then s1\<lparr>history_view_start := i\<rparr> else s1);
               s3 = (if i \<ge> history_view_start s2 + available_lines
                     then s2\<lparr>history_view_start := i - available_lines + 1\<rparr> else s2)
           in draw_color_panel (Some h) s3))"

definition key_down :: "state \<Rightarrow> state" where
  "key_down s =
     (if history s = [] then s
      else let i = (case history_index s of
                      None \<Rightarrow> 0
                    | Some j \<Rightarrow> min (int (length (history s)) - 1) (j + 1))
           in show_selected i (s\<lparr>history_index := Some i\<rparr>))"

definition key_up :: "state \<Rightarrow> state" where
  "key_up s =
     (if history s = [] then s
      else case history_index s of
             None \<Rightarrow> s
           | Some j \<Rightarrow>
               (let i = j - 1
                in if i < 0
                   then draw_color_panel None (s\<lparr>history_index := None, current_input := []\<rparr>)
                   else show_selected i (s\<lparr>history_index := Some i\<rparr>)))"

subsection \<open>Page scrolling\<close>

definition key_page :: "int \<Rightarrow> state \<Rightarrow> state" where
  "key_page key s =
     (let is_ppage = (key = KEY_PPAGE);
          direction = (if SWAP_PAGE_KEYS then (if is_ppage then 1 else - 1)
                       else (if is_ppage then - 1 else 1));
          step = (if available_lines > 0 then available_lines else 1);
          new_start = history_view_start s + direction * step;
          new_start = max 0 (min new_start (max 0 (int (length (history s)) - available_lines)));
          s1 = s\<lparr>history_view_start := new_start\<rparr>
      in case history_index s1 of
           None \<Rightarrow> s1
         | Some i \<Rightarrow>
             if 0 \<le> i \<and> i < int (length (history s1))
             then draw_color_panel (Some (history s1 ! nat i)) s1
             else s1)"

subsection \<open>Copy, save, load, clear\<close>

definition key_copy :: "env \<Rightarrow> state \<Rightarrow> state" where
  "key_copy e s =
     (let to_copy =
            (case last_hex s of
               Some h \<Rightarrow> if h \<noteq> [] then Some h
                         else if startswith (strip (current_input s)) ''#''
                              then Some (strip (current_input s)) else None
             | None \<Rightarrow> if startswith (strip (current_input s)) ''#''
                        then Some (strip (current_input s)) else None)
      in case to_copy of
           Some t \<Rightarrow>
             if t \<noteq> []
             then (if CLIP_AVAILABLE e
                   then (case copy_error e of
                           None \<Rightarrow> s\<lparr>message := MsgCopied t, message_attr := 3\<rparr>
                         | Some x \<Rightarrow> s\<lparr>message := MsgCopyError x, message_attr := 2\<rparr>)
                   else s\<lparr>message := MsgNoClipboard, message_attr := 2\<rparr>)
             else s\<lparr>message := MsgNothingToCopy, message_attr := 2\<rparr>
         | None \<Rightarrow> s\<lparr>message := MsgNothingToCopy, message_attr := 2\<rparr>)"

definition key_save :: "env \<Rightarrow> state \<Rightarrow> state" where
  "key_save e s =
     (let (ok, m) = save_history_to_file (write_error e)
      in s\<lparr>message := m, message_attr := (if ok then 3 else 2)\<rparr>)"

definition key_load :: "env \<Rightarrow> state \<Rightarrow> state" where
  "key_load e s =
     (let (loaded, m) = load_history_from_file (hist_file e)
      in if loaded \<noteq> []
         then (let s1 = s\<lparr>history := take HISTORY_MAX loaded, history_index := None,
                          history_view_start := 0, message := m, message_attr := 3\<rparr>
               in if history s1 \<noteq> []
                  then draw_color_panel (Some (hd (history s1))) s1
                  else draw_color_panel None s1)
         else s\<lparr>message := m, message_attr := 2\<rparr>)"

definition key_clear :: "state \<Rightarrow> state" where
  "key_clear s =
     draw_color_panel None
       (s\<lparr>history := [], history_index := None, history_view_start := 0,
          message := MsgCleared, message_attr := 3\<rparr>)"

subsection \<open>Dispatch and one loop iteration\<close>

definition handle_key :: "env \<Rightarrow> int \<Rightarrow> state \<Rightarrow> state" where
  "handle_key e key s =
     (if key = KEY_ENTER \<or> key = 10 \<or> key = 13 then key_enter s
      else if key = KEY_BACKSPACE \<or> key = 127 \<or> key = 8 then key_backspace s
      else if key = KEY_DOWN then key_down s
      else if key = KEY_UP then key_up s
      else if key = KEY_PPAGE \<or> key = KEY_NPAGE then key_page key s
      else if key = 99 then key_copy e s
      else if key = 115 then key_save e s
      else if key = 108 then key_load e s
      else if key = 67 then key_clear s
      else key_printable key s)"

text \<open>
  One iteration of \<^verbatim>\<open>while True\<close>: render, read a key (\<open>- 1\<close>: none pending),
  leave the loop on Esc (\<open>None\<close>), otherwise run the handler.
\<close>

definition loop_iteration :: "env \<Rightarrow> int \<Rightarrow> state \<Rightarrow> state option" where
  "loop_iteration e key s =
     (let s1 = render s
      in if key = - 1 then Some s1
         else if key = 27 then None
         else Some (handle_key e key s1))"

text \<open>The states the variables can be in after a key handler has run.\<close>

inductive after_handler :: "state \<Rightarrow> bool" where
  first: "after_handler (handle_key e key (render init_state))"
| later: "after_handler s \<Longrightarrow> after_handler (handle_key e key (render s))"


section \<open>Vocabulary of the properties\<close>

text \<open>
  A hexadecimal digit (one of 0 to 9, a to f, A to F, by code point), and a string of
  exactly six of them: the \<^verbatim>\<open>rrggbb\<close> part of
  a hex colour. \<open>pair_byte\<close> is the byte two hexadecimal digits denote, and
  \<open>byte_channels\<close> reads the three bytes of \<^verbatim>\<open>#rrggbb\<close>.
\<close>

definition hex_digit_char :: "char \<Rightarrow> bool" where
  "hex_digit_char c =
     (let n = (of_char c :: nat)
      in (48 \<le> n \<and> n \<le> 57) \<or> (97 \<le> n \<and> n \<le> 102) \<or> (65 \<le> n \<and> n \<le> 70))"

definition valid_hex6 :: "string \<Rightarrow> bool" where
  "valid_hex6 s = (length s = 6 \<and> list_all hex_digit_char s)"

definition pair_byte :: "string \<Rightarrow> int" where
  "pair_byte p = int (digits_value 16 p)"

definition byte_channels :: "string \<Rightarrow> int \<times> int \<times> int" where
  "byte_channels h =
     (let s = drop 1 h in (pair_byte (take 2 s), pair_byte (take 2 (drop 2 s)), pair_byte (take 2 (drop 4 s))))"

definition ascii_lower :: "char \<Rightarrow> char" where
  "ascii_lower c =
     (let n = (of_char c :: nat) in if 65 \<le> n \<and> n \<le> 90 then char_of (n + 32) else c)"

text \<open>
  Two hex colours differ by at most one unit in each of their three byte channels.
\<close>

definition within_one :: "string \<Rightarrow> string \<Rightarrow> bool" where
  "within_one h h' =
     (case (byte_channels h, byte_channels h') of
        ((r, g, b), (r', g', b')) \<Rightarrow> \<bar>r - r'\<bar> \<le> 1 \<and> \<bar>g - g'\<bar> \<le> 1 \<and> \<bar>b - b'\<bar> \<le> 1)"

text \<open>\<^verbatim>\<open>rgb1000_to_hex(*hex_to_1000(h))\<close>, the round trip of a hex string.\<close>

definition roundtrip :: "string \<Rightarrow> error + string" where
  "roundtrip h =
     (case hex_to_1000 h of
        Inl e \<Rightarrow> Inl e
      | Inr (r, g, b) \<Rightarrow> rgb1000_to_hex r g b)"


text \<open>
  The bounds of the view window, and a cursor that is either absent or an index into the
  history.
\<close>

definition view_ok :: "state \<Rightarrow> bool" where
  "view_ok s =
     (0 \<le> history_view_start s
      \<and> history_view_start s \<le> max 0 (int (length (history s)) - available_lines))"

definition cursor_ok :: "state \<Rightarrow> bool" where
  "cursor_ok s =
     (case history_index s of
        None \<Rightarrow> True
      | Some i \<Rightarrow> 0 \<le> i \<and> i < int (length (history s)))"

text \<open>Pressing the same key \<open>n\<close> times: \<open>n\<close> loop iterations, each rendering first.\<close>

fun press :: "env \<Rightarrow> int \<Rightarrow> nat \<Rightarrow> state \<Rightarrow> state" where
  "press e key 0 s = s"
| "press e key (Suc n) s = handle_key e key (render (press e key n s))"


section \<open>The float model: error bounds\<close>

lemma round_half_even_err: "\<bar>of_int (round_half_even q) - q\<bar> \<le> 1 / 2"
proof -
  have "of_int \<lfloor>q\<rfloor> \<le> q" "q < of_int \<lfloor>q\<rfloor> + 1" by linarith+
  then show ?thesis
    unfolding round_half_even_def Let_def by (auto simp: abs_le_iff)
qed


lemma round_half_even_unique:
  assumes "of_int k - 1 / 2 < q" "q < of_int k + 1 / 2"
  shows "round_half_even q = k"
proof -
  let ?f = "\<lfloor>q\<rfloor>"
  have fl: "of_int ?f \<le> q" "q < of_int ?f + 1" by linarith+
  have "k - 1 \<le> ?f" using assms(1) by linarith
  moreover have "?f \<le> k" using assms(2) by linarith
  ultimately consider "?f = k" | "?f = k - 1" by linarith
  then show ?thesis
  proof cases
    case 1
    then have "q - of_int ?f < 1 / 2" using assms(2) by simp
    then show ?thesis unfolding round_half_even_def Let_def using 1 by simp
  next
    case 2
    then have "1 / 2 < q - of_int ?f" using assms(1) by simp
    then show ?thesis unfolding round_half_even_def Let_def using 2 by simp
  qed
qed

lemma pow2_pos: "0 < pow2 e"
  by (simp add: pow2_def)

lemma pow2_powi: "pow2 e = 2 powi e"
  by (simp add: pow2_def power_int_def inverse_eq_divide power_one_over)

lemma pow2_shift: "pow2 (e - 52) = pow2 e / 2 ^ 52"
  by (simp add: pow2_powi power_int_diff)

lemma binade_lower:
  assumes "q \<noteq> 0"
  shows "pow2 (binade q) \<le> \<bar>q\<bar>"
proof (cases "1 \<le> \<bar>q\<bar>")
  case True
  let ?m = "\<lfloor>\<bar>q\<bar>\<rfloor>"
  have m: "0 < ?m" using True by simp
  have b1: "1 \<le> bitlen ?m" using m by (simp add: bitlen_ge_iff_power)
  have "(2::int) ^ nat (bitlen ?m - 1) \<le> ?m" using bitlen_bounds [OF m] by simp
  then have "of_int ((2::int) ^ nat (bitlen ?m - 1)) \<le> (of_int ?m :: rat)"
    by (simp only: of_int_le_iff)
  also have "\<dots> \<le> \<bar>q\<bar>" by simp
  finally have "(2::rat) ^ nat (bitlen ?m - 1) \<le> \<bar>q\<bar>" by simp
  moreover have "binade q = bitlen ?m - 1" using True by (simp add: binade_def)
  ultimately show ?thesis using b1 by (simp add: pow2_def)
next
  case False
  let ?a = "\<bar>q\<bar>"
  let ?n = "\<lceil>1 / ?a\<rceil>"
  let ?k = "bitlen (?n - 1)"
  have a: "0 < ?a" "?a < 1" using assms False by simp_all
  have "1 < 1 / ?a" using a by simp
  then have n: "0 < ?n - 1" by linarith
  have k1: "1 \<le> ?k" using n by (simp add: bitlen_ge_iff_power)
  have "?n - 1 < 2 ^ nat ?k" using bitlen_bounds [OF n] by simp
  then have "?n \<le> 2 ^ nat ?k" by simp
  then have "(of_int ?n :: rat) \<le> of_int (2 ^ nat ?k)" by (simp only: of_int_le_iff)
  then have "(of_int ?n :: rat) \<le> 2 ^ nat ?k" by simp
  moreover have "1 / ?a \<le> of_int ?n" by linarith
  ultimately have "1 / ?a \<le> 2 ^ nat ?k" by linarith
  then have "1 / 2 ^ nat ?k \<le> ?a" using a(1)
    by (simp add: field_simps)
  moreover have "binade q = - ?k" using False by (simp add: binade_def)
  ultimately show ?thesis using k1 by (simp add: pow2_def)
qed

lemma binade_ge:
  assumes "1 / 2 ^ n \<le> \<bar>q\<bar>"
  shows "- int n \<le> binade q"
proof (cases "1 \<le> \<bar>q\<bar>")
  case True
  have "0 < \<lfloor>\<bar>q\<bar>\<rfloor>" using True by simp
  then have "1 \<le> bitlen \<lfloor>\<bar>q\<bar>\<rfloor>" by (simp add: bitlen_ge_iff_power)
  then show ?thesis using True by (simp add: binade_def)
next
  case False
  let ?a = "\<bar>q\<bar>"
  have "(0::rat) < 1 / 2 ^ n" by simp
  then have a: "0 < ?a" using assms by linarith
  have "1 / ?a \<le> 2 ^ n" using assms a by (simp add: field_simps)
  then have "1 / ?a \<le> of_int (2 ^ n)" by simp
  then have "\<lceil>1 / ?a\<rceil> \<le> 2 ^ n" by (simp only: ceiling_le_iff)
  then have "\<lceil>1 / ?a\<rceil> - 1 < 2 ^ nat (int n)" by simp
  then have "bitlen (\<lceil>1 / ?a\<rceil> - 1) \<le> int n" by (simp add: bitlen_le_iff_power)
  then show ?thesis using False by (simp add: binade_def)
qed


lemma fl_err:
  assumes "1 / 2 ^ n \<le> \<bar>q\<bar>" and "n \<le> 1022"
  shows "\<bar>fl q - q\<bar> \<le> \<bar>q\<bar> / 2 ^ 53"
proof -
  have "(0::rat) < 1 / 2 ^ n" by simp
  then have "0 < \<bar>q\<bar>" using assms(1) by linarith
  then have q0: "q \<noteq> 0" by simp
  define u where "u = pow2 (binade q - 52)"
  have "- int n \<le> binade q" using assms(1) by (rule binade_ge)
  then have m: "max (binade q - 52) (- 1074) = binade q - 52" using assms(2) by simp
  have u: "0 < u" by (simp add: u_def pow2_pos)
  have flq: "fl q = of_int (round_half_even (q / u)) * u"
    using q0 m by (simp add: fl_def u_def Let_def)
  have "\<bar>of_int (round_half_even (q / u)) - q / u\<bar> \<le> 1 / 2" by (rule round_half_even_err)
  then have "\<bar>of_int (round_half_even (q / u)) - q / u\<bar> * u \<le> 1 / 2 * u"
    using u by (simp only: mult_le_cancel_right_pos)
  moreover have "\<bar>of_int (round_half_even (q / u)) - q / u\<bar> * u = \<bar>fl q - q\<bar>"
  proof -
    have "\<bar>of_int (round_half_even (q / u)) - q / u\<bar> * u
        = \<bar>(of_int (round_half_even (q / u)) - q / u) * u\<bar>"
      using u by (simp add: abs_mult)
    also have "(of_int (round_half_even (q / u)) - q / u) * u = fl q - q"
      using u by (simp add: flq left_diff_distrib)
    finally show ?thesis .
  qed
  ultimately have "\<bar>fl q - q\<bar> \<le> u / 2" by simp
  moreover have "u \<le> \<bar>q\<bar> / 2 ^ 52"
    using binade_lower [OF q0] by (simp add: u_def pow2_shift divide_right_mono)
  ultimately show ?thesis by simp
qed

lemma scaled_float_close:
  fixes n d m :: int
  assumes n: "0 < n" "n \<le> d" and d: "d \<le> 1000" and m: "0 < m" "m \<le> 1000"
  shows "\<bar>py_fmul (py_truediv n d) m - of_int n * of_int m / of_int d\<bar> \<le> 2001 / 2 ^ 53"
proof -
  define q :: rat where "q = of_int n / of_int d"
  define y where "y = fl q"
  define z where "z = y * of_int m"
  have dpos: "(0::rat) < of_int d" using n by simp
  have q1: "q \<le> 1" using n dpos by (simp add: q_def)
  have "(1::rat) \<le> of_int n" using n(1) by simp
  moreover have "(of_int d :: rat) \<le> 1000" using d by simp
  ultimately have q2: "1 / 1000 \<le> q" using dpos unfolding q_def
    by (simp add: field_simps) 
  have qabs: "\<bar>q\<bar> = q" using q2 by simp
  have "1 / 2 ^ 10 \<le> \<bar>q\<bar>" using q2 qabs by simp
  then have "\<bar>y - q\<bar> \<le> \<bar>q\<bar> / 2 ^ 53" unfolding y_def by (rule fl_err) simp
  then have yq: "\<bar>y - q\<bar> \<le> 1 / 2 ^ 53" using q1 qabs by simp
  have mr: "(1::rat) \<le> of_int m" "(of_int m :: rat) \<le> 1000" using m by simp_all
  have "\<bar>z - q * of_int m\<bar> = \<bar>y - q\<bar> * of_int m"
    using mr by (simp add: z_def abs_mult flip: left_diff_distrib)
  also have "\<dots> \<le> 1 / 2 ^ 53 * 1000"
    using yq mr by (intro mult_mono) simp_all
  finally have zx: "\<bar>z - q * of_int m\<bar> \<le> 1000 / 2 ^ 53" by simp
  have x1: "q * of_int m \<le> 1000" using q1 q2 mr
    by (metis mult_mono mult_1 order_trans zero_le_one qabs abs_ge_zero)
  have x2: "1 / 1000 \<le> q * of_int m"
    using q2 mr mult_mono [of "1 / 1000" q 1 "of_int m"] by simp
  have e1: "(1000::rat) / 2 ^ 53 \<le> 1 / 2048" by simp
  have e2: "(1::rat) / 2 ^ 11 = 1 / 2048" by simp
  have z1: "z \<le> 1001" using zx x1 e1 by linarith
  have z2: "1 / 2 ^ 11 \<le> z" using zx x2 e1 e2 by linarith
  have zabs: "\<bar>z\<bar> = z" using z2 by simp
  have "1 / 2 ^ 11 \<le> \<bar>z\<bar>" using z2 zabs by simp
  then have "\<bar>fl z - z\<bar> \<le> \<bar>z\<bar> / 2 ^ 53" by (rule fl_err) simp
  then have fz: "\<bar>fl z - z\<bar> \<le> 1001 / 2 ^ 53" using z1 zabs by simp
  have e3: "(1001::rat) / 2 ^ 53 + 1000 / 2 ^ 53 = 2001 / 2 ^ 53" by simp
  have "\<bar>fl z - q * of_int m\<bar> \<le> 2001 / 2 ^ 53" using fz zx e3 by linarith
  moreover have "py_fmul (py_truediv n d) m = fl z"
    by (simp add: py_fmul_def py_truediv_def z_def y_def q_def)
  moreover have "q * of_int m = of_int n * of_int m / of_int d" by (simp add: q_def)
  ultimately show ?thesis by simp
qed

lemma round_near_quotient:
  fixes a d k r :: int
  assumes d: "0 < d" and eq: "2 * a + d = 2 * d * k + r"
    and close: "\<bar>x - of_int a / of_int d\<bar> \<le> e"
    and lo: "e < of_int r / of_int (2 * d)" and hi: "e < of_int (2 * d - r) / of_int (2 * d)"
  shows "round_half_even x = k"
proof (rule round_half_even_unique)
  have dr: "(0::rat) < of_int d" using d by simp
  have "(of_int (2 * a + d) :: rat) = of_int (2 * d * k + r)" using eq by simp
  then have "(2 * of_int a + of_int d :: rat) = 2 * of_int d * of_int k + of_int r" by simp
  then have "(of_int a :: rat) / of_int d = of_int k - 1 / 2 + of_int r / (2 * of_int d)"
    using dr by (simp add: field_simps)
  then have A: "(of_int a :: rat) / of_int d = of_int k - 1 / 2 + of_int r / of_int (2 * d)"
    by simp
  have B: "of_int (2 * d - r) / (of_int (2 * d) :: rat) = 1 - of_int r / of_int (2 * d)"
    using dr by (simp add: field_simps)
  show "of_int k - 1 / 2 < x" using close lo A by linarith
  show "x < of_int k + 1 / 2" using close hi A B by linarith
qed

lemma chan_1000_zero: "chan_1000 0 = 0"
  by (simp add: chan_1000_def py_round_def py_fmul_def py_truediv_def fl_def round_half_even_def)

lemma chan_255_zero: "chan_255 0 = 0"
  by (simp add: chan_255_def py_round_def py_fmul_def py_truediv_def fl_def round_half_even_def)

lemma chan_1000_int:
  assumes "0 \<le> c" "c \<le> 255"
  shows "chan_1000 c = (2000 * c + 255) div 510"
proof (cases "c = 0")
  case True
  then show ?thesis by (simp add: chan_1000_zero)
next
  case False
  define k where "k = (2000 * c + 255) div 510"
  define r where "r = (2000 * c + 255) mod 510"
  have eq: "2 * (1000 * c) + 255 = 2 * 255 * k + r" by (simp add: k_def r_def)
  have "r mod 5 = (2000 * c + 255) mod 5" unfolding r_def by (rule mod_mod_cancel) simp
  then have r5: "r mod 5 = 0" by simp
  have "r mod 2 = (2000 * c + 255) mod 2" unfolding r_def by (rule mod_mod_cancel) simp
  then have r2: "r mod 2 = 1" by presburger
  have rb: "0 \<le> r" "r < 510" by (simp_all add: r_def)
  have r: "5 \<le> r" "r \<le> 505" using r5 r2 rb by presburger+
  have close: "\<bar>py_fmul (py_truediv c 255) 1000 - of_int (1000 * c) / of_int 255\<bar> \<le> 2001 / 2 ^ 53"
    using scaled_float_close [of c 255 1000] assms False by (simp add: mult.commute)
  have "(2001::rat) / 2 ^ 53 < 5 / 510" by simp
  moreover have "(of_int 5 :: rat) \<le> of_int r" "(of_int 5 :: rat) \<le> of_int (2 * 255 - r)"
    using r by (simp_all only: of_int_le_iff)
  then have "(5::rat) / 510 \<le> of_int r / of_int (2 * 255)"
    "(5::rat) / 510 \<le> of_int (2 * 255 - r) / of_int (2 * 255)"
    by (simp_all add: divide_right_mono)
  ultimately have lo: "2001 / 2 ^ 53 < (of_int r :: rat) / of_int (2 * 255)"
    and hi: "2001 / 2 ^ 53 < (of_int (2 * 255 - r) :: rat) / of_int (2 * 255)" by linarith+
  have "round_half_even (py_fmul (py_truediv c 255) 1000) = k"
    by (rule round_near_quotient [OF _ eq close lo hi]) simp
  then show ?thesis by (simp add: chan_1000_def py_round_def k_def)
qed

lemma dvd_200_mod:
  fixes v :: int
  assumes "200 dvd v + 100"
  shows "v mod 200 = 100"
proof -
  from assms obtain k where k: "v + 100 = 200 * k" by (auto simp: dvd_def)
  then have "v = 200 * (k - 1) + 100" by simp
  then have "v mod 200 = (200 * (k - 1) + 100) mod 200" by simp
  also have "\<dots> = 100" by (simp only: mod_mult_self4) simp
  finally show ?thesis .
qed

lemma no_tie_255:
  fixes v :: int
  assumes "v mod 200 \<noteq> 100"
  shows "(51 * v + 100) mod 200 \<noteq> 0"
proof
  assume "(51 * v + 100) mod 200 = 0"
  then have "200 dvd 51 * v + 100" by (simp only: mod_eq_0_iff_dvd)
  then have "200 dvd 51 * (51 * v + 100)" by (rule dvd_mult)
  moreover have "51 * (51 * v + 100) = (v + 100) + 200 * (13 * v + 25)" by simp
  ultimately have "200 dvd (v + 100) + 200 * (13 * v + 25)" by simp
  then have "200 dvd v + 100" by (simp only: dvd_add_left_iff dvd_triv_left)
  then have "v mod 200 = 100" by (rule dvd_200_mod)
  with assms show False by simp
qed

lemma chan_255_int:
  assumes "0 \<le> v" "v \<le> 1000" "v mod 200 \<noteq> 100"
  shows "chan_255 v = (51 * v + 100) div 200"
proof (cases "v = 0")
  case True
  then show ?thesis by (simp add: chan_255_zero)
next
  case False
  define k where "k = (51 * v + 100) div 200"
  define r where "r = (51 * v + 100) mod 200"
  have "51 * v + 100 = 200 * k + r" by (simp add: k_def r_def)
  then have eq: "2 * (255 * v) + 1000 = 2 * 1000 * k + 10 * r" by simp
  have "r \<noteq> 0" unfolding r_def using assms(3) by (rule no_tie_255)
  moreover have "0 \<le> r" "r < 200" by (simp_all add: r_def)
  ultimately have r: "1 \<le> r" "r \<le> 199" by simp_all
  have close: "\<bar>py_fmul (py_truediv v 1000) 255 - of_int (255 * v) / of_int 1000\<bar> \<le> 2001 / 2 ^ 53"
    using scaled_float_close [of v 1000 255] assms False by (simp add: mult.commute)
  have "(2001::rat) / 2 ^ 53 < 10 / 2000" by simp
  moreover have "(of_int 10 :: rat) \<le> of_int (10 * r)" "(of_int 10 :: rat) \<le> of_int (2 * 1000 - 10 * r)"
    using r by (simp_all only: of_int_le_iff)
  then have "(10::rat) / 2000 \<le> of_int (10 * r) / of_int (2 * 1000)"
    "(10::rat) / 2000 \<le> of_int (2 * 1000 - 10 * r) / of_int (2 * 1000)"
    by (simp_all add: divide_right_mono)
  ultimately have lo: "2001 / 2 ^ 53 < (of_int (10 * r) :: rat) / of_int (2 * 1000)"
    and hi: "2001 / 2 ^ 53 < (of_int (2 * 1000 - 10 * r) :: rat) / of_int (2 * 1000)" by linarith+
  have "round_half_even (py_fmul (py_truediv v 1000) 255) = k"
    by (rule round_near_quotient [OF _ eq close lo hi]) simp
  then show ?thesis by (simp add: chan_255_def py_round_def k_def)
qed

lemma chan_255_100: "chan_255 100 = 26" by code_simp
lemma chan_255_300: "chan_255 300 = 76" by code_simp
lemma chan_255_500: "chan_255 500 = 128" by code_simp
lemma chan_255_700: "chan_255 700 = 178" by code_simp
lemma chan_255_900: "chan_255 900 = 230" by code_simp

lemma round_half_away_unique:
  assumes "of_int k - 1 / 2 < q" "q < of_int k + 1 / 2"
  shows "round_half_away q = k"
proof (cases "0 \<le> q")
  case True
  have "of_int k \<le> q + 1 / 2" "q + 1 / 2 < of_int k + 1" using assms by linarith+
  then have "\<lfloor>q + 1 / 2\<rfloor> = k" by (simp only: floor_unique)
  then show ?thesis using True by (simp add: round_half_away_def)
next
  case False
  have "of_int k - 1 < q - 1 / 2" "q - 1 / 2 \<le> of_int k" using assms by linarith+
  then have "\<lceil>q - 1 / 2\<rceil> = k" by (simp only: ceiling_unique)
  then show ?thesis using False by (simp add: round_half_away_def)
qed

lemma exact_quotient_rounds:
  fixes a d k r :: int
  assumes d: "0 < d" and eq: "2 * a + d = 2 * d * k + r" and r: "0 < r" "r < 2 * d"
  shows "round_half_even (of_int a / of_int d) = k" "round_half_away (of_int a / of_int d) = k"
proof -
  let ?x = "(of_int a :: rat) / of_int d"
  have dr: "(0::rat) < of_int d" using d by simp
  have "(of_int (2 * a + d) :: rat) = of_int (2 * d * k + r)" using eq by simp
  then have "(2 * of_int a + of_int d :: rat) = 2 * of_int d * of_int k + of_int r" by simp
  then have A: "?x = of_int k - 1 / 2 + of_int r / (2 * of_int d)"
    using dr by (simp add: field_simps)
  have "(0::rat) < of_int r" "(of_int r :: rat) < of_int (2 * d)" using r by (simp_all only: of_int_less_iff of_int_0_less_iff)
  then have "(0::rat) < of_int r / (2 * of_int d)" "(of_int r :: rat) / (2 * of_int d) < 1"
    using dr by simp_all
  then have B: "of_int k - 1 / 2 < ?x" "?x < of_int k + 1 / 2" using A by linarith+
  show "round_half_even ?x = k" using B by (rule round_half_even_unique)
  show "round_half_away ?x = k" using B by (rule round_half_away_unique)
qed

lemma chan_1000_exact:
  assumes "0 \<le> c" "c \<le> 255"
  shows "chan_1000 c = round_half_even (of_int c / 255 * 1000)"
    and "chan_1000 c = round_half_away (of_int c / 255 * 1000)"
proof -
  define k where "k = (2000 * c + 255) div 510"
  define r where "r = (2000 * c + 255) mod 510"
  have eq: "2 * (1000 * c) + 255 = 2 * 255 * k + r" by (simp add: k_def r_def)
  have "r mod 2 = (2000 * c + 255) mod 2" unfolding r_def by (rule mod_mod_cancel) simp
  then have r2: "r mod 2 = 1" by presburger
  have rb: "0 \<le> r" "r < 510" by (simp_all add: r_def)
  have r: "0 < r" "r < 2 * 255" using r2 rb by presburger+
  have x: "(of_int c :: rat) / 255 * 1000 = of_int (1000 * c) / of_int 255" by simp
  have ck: "chan_1000 c = k" using assms by (simp add: chan_1000_int k_def)
  show "chan_1000 c = round_half_even (of_int c / 255 * 1000)"
    unfolding x ck by (rule exact_quotient_rounds(1) [OF _ eq r, symmetric]) simp
  show "chan_1000 c = round_half_away (of_int c / 255 * 1000)"
    unfolding x ck by (rule exact_quotient_rounds(2) [OF _ eq r, symmetric]) simp
qed

lemma chan_255_exact:
  assumes "0 \<le> v" "v \<le> 1000" "v mod 200 \<noteq> 100"
  shows "chan_255 v = round_half_even (of_int v / 1000 * 255)"
    and "chan_255 v = round_half_away (of_int v / 1000 * 255)"
proof -
  define k where "k = (51 * v + 100) div 200"
  define r where "r = (51 * v + 100) mod 200"
  have "51 * v + 100 = 200 * k + r" by (simp add: k_def r_def)
  then have eq: "2 * (255 * v) + 1000 = 2 * 1000 * k + 10 * r" by simp
  have "r \<noteq> 0" unfolding r_def using assms(3) by (rule no_tie_255)
  moreover have "0 \<le> r" "r < 200" by (simp_all add: r_def)
  ultimately have r: "0 < 10 * r" "10 * r < 2 * 1000" by simp_all
  have x: "(of_int v :: rat) / 1000 * 255 = of_int (255 * v) / of_int 1000" by simp
  have ck: "chan_255 v = k" using assms by (simp add: chan_255_int k_def)
  show "chan_255 v = round_half_even (of_int v / 1000 * 255)"
    unfolding x ck by (rule exact_quotient_rounds(1) [OF _ eq r, symmetric]) simp
  show "chan_255 v = round_half_away (of_int v / 1000 * 255)"
    unfolding x ck by (rule exact_quotient_rounds(2) [OF _ eq r, symmetric]) simp
qed

lemma tie_values:
  fixes v :: int
  assumes "0 \<le> v" "v \<le> 1000" "v mod 200 = 100"
  shows "v = 100 \<or> v = 300 \<or> v = 500 \<or> v = 700 \<or> v = 900"
proof -
  define j where "j = v div 200"
  have v: "v = 200 * j + 100" using assms(3) by (simp add: j_def) (metis mult_div_mod_eq)
  then have "0 \<le> j" "j \<le> 4" using assms(1,2) by simp_all
  then have "j = 0 \<or> j = 1 \<or> j = 2 \<or> j = 3 \<or> j = 4" by presburger
  then show ?thesis using v by auto
qed

lemma ties_half_even:
  "round_half_even (of_int 100 / 1000 * 255) = 26"
  "round_half_even (of_int 300 / 1000 * 255) = 76"
  "round_half_even (of_int 500 / 1000 * 255) = 128"
  "round_half_even (of_int 700 / 1000 * 255) = 178"
  "round_half_even (of_int 900 / 1000 * 255) = 230"
  by code_simp+

lemma ties_half_away:
  "round_half_away (of_int 100 / 1000 * 255) = 26"
  "round_half_away (of_int 300 / 1000 * 255) = 77"
  "round_half_away (of_int 500 / 1000 * 255) = 128"
  "round_half_away (of_int 700 / 1000 * 255) = 179"
  "round_half_away (of_int 900 / 1000 * 255) = 230"
  by code_simp+


section \<open>Hexadecimal digits: parsing and formatting a byte\<close>

lemma hex_digit_char_val: "hex_digit_char c \<Longrightarrow> digit_val c < 16"
  by (auto simp: hex_digit_char_def digit_val_def Let_def)

lemma hex_digit_char_plain:
  assumes "hex_digit_char c"
  shows "\<not> is_c_space c" "c \<noteq> CHR ''+''" "c \<noteq> CHR ''-''" "c \<noteq> CHR ''_''" "c \<noteq> CHR ''#''"
    "c \<noteq> CHR ''x''" "c \<noteq> CHR ''X''"
  using assms by (auto simp: hex_digit_char_def is_c_space_def Let_def)

lemma hex_digit_table:
  assumes "d < 16"
  shows "(of_char (hex_digit d) :: nat) = (if d < 10 then 48 + d else 87 + d)"
proof -
  have "d = 0 \<or> d = 1 \<or> d = 2 \<or> d = 3 \<or> d = 4 \<or> d = 5 \<or> d = 6 \<or> d = 7 \<or> d = 8
      \<or> d = 9 \<or> d = 10 \<or> d = 11 \<or> d = 12 \<or> d = 13 \<or> d = 14 \<or> d = 15"
    using assms by presburger
  then show ?thesis
    by (elim disjE) (simp_all add: hex_digit_def)
qed

lemma hex_digit_lower:
  assumes "hex_digit_char c"
  shows "hex_digit (digit_val c) = ascii_lower c"
proof -
  let ?n = "of_char c :: nat"
  have d: "digit_val c < 16" using assms by (rule hex_digit_char_val)
  have L: "(of_char (hex_digit (digit_val c)) :: nat)
      = (if digit_val c < 10 then 48 + digit_val c else 87 + digit_val c)"
    by (rule hex_digit_table [OF d])
  have R: "(of_char (ascii_lower c) :: nat) = (if 65 \<le> ?n \<and> ?n \<le> 90 then ?n + 32 else ?n)"
    by (simp add: ascii_lower_def Let_def of_char_of del: of_char_eq_iff)
  have "(if digit_val c < 10 then 48 + digit_val c else 87 + digit_val c)
      = (if 65 \<le> ?n \<and> ?n \<le> 90 then ?n + 32 else ?n)"
    using assms by (auto simp: hex_digit_char_def digit_val_def Let_def)
  then have "(of_char (hex_digit (digit_val c)) :: nat) = of_char (ascii_lower c)"
    by (simp only: L R)
  then show ?thesis by (simp only: of_char_eq_iff)
qed

lemma hex_digit_inverse:
  assumes "d < 16"
  shows "hex_digit_char (hex_digit d)" "digit_val (hex_digit d) = d"
  using assms by (simp_all add: hex_digit_char_def digit_val_def hex_digit_table Let_def)

lemma py_int_pair:
  assumes "hex_digit_char a" "hex_digit_char b"
  shows "py_int 16 [a, b] = Some (pair_byte [a, b])"
  using hex_digit_char_plain [OF assms(1)] hex_digit_char_plain [OF assms(2)]
    hex_digit_char_val [OF assms(1)] hex_digit_char_val [OF assms(2)]
  by (simp add: py_int_def pair_byte_def digit_or_underscore_def Let_def)

lemma pair_byte_range:
  assumes "hex_digit_char a" "hex_digit_char b"
  shows "0 \<le> pair_byte [a, b]" "pair_byte [a, b] \<le> 255"
    "pair_byte [a, b] = int (digit_val a * 16 + digit_val b)"
  using hex_digit_char_val [OF assms(1)] hex_digit_char_val [OF assms(2)]
  by (simp_all add: pair_byte_def digits_value_def)

lemma lstrip_replicate: "lstrip_chars ch (replicate n ch @ s) = lstrip_chars ch s"
  by (induction n) (simp_all add: lstrip_chars_def)

lemma lstrip_hex_digit: "hex_digit_char a \<Longrightarrow> lstrip_chars (CHR ''#'') (a # s) = a # s"
  using hex_digit_char_plain(5) [of a] by (simp add: lstrip_chars_def)

lemma hex_to_1000_digits:
  assumes "hex_digit_char a1" "hex_digit_char a2" "hex_digit_char b1" "hex_digit_char b2"
    "hex_digit_char c1" "hex_digit_char c2"
  shows "hex_to_1000 (replicate n (CHR ''#'') @ [a1, a2, b1, b2, c1, c2])
       = Inr (chan_1000 (pair_byte [a1, a2]), chan_1000 (pair_byte [b1, b2]),
              chan_1000 (pair_byte [c1, c2]))"
proof -
  have "lstrip_chars (CHR ''#'') (replicate n (CHR ''#'') @ [a1, a2, b1, b2, c1, c2])
      = [a1, a2, b1, b2, c1, c2]"
    using assms(1) by (simp only: lstrip_replicate lstrip_hex_digit)
  then show ?thesis
    by (simp add: hex_to_1000_def py_int_pair assms)
qed

lemma hex_digits_byte:
  assumes "n < 256"
  shows "zero_pad 2 (hex_digits n) = [hex_digit (n div 16), hex_digit (n mod 16)]"
proof (cases "n < 16")
  case True
  then have "hex_digit (n div 16) = CHR ''0''" by (simp add: hex_digit_def)
  then show ?thesis using True by (simp add: hex_digits.simps [of n] zero_pad_def)
next
  case False
  have "n div 16 < 16" using assms by simp
  then have "hex_digits (n div 16) = [hex_digit (n div 16)]"
    by (simp add: hex_digits.simps [of "n div 16"])
  then show ?thesis using False by (simp add: hex_digits.simps [of n] zero_pad_def)
qed

lemma fmt_02x_byte:
  assumes "0 \<le> n" "n \<le> 255"
  shows "fmt_02x n = [hex_digit (nat n div 16), hex_digit (nat n mod 16)]"
  using assms by (simp add: fmt_02x_def hex_digits_byte)

lemma pair_byte_fmt:
  assumes "0 \<le> n" "n \<le> 255"
  shows "pair_byte (fmt_02x n) = n" "list_all hex_digit_char (fmt_02x n)"
proof -
  have d: "nat n div 16 < 16" "nat n mod 16 < 16" using assms by simp_all
  show "pair_byte (fmt_02x n) = n"
    using assms by (simp add: fmt_02x_byte pair_byte_def digits_value_def hex_digit_inverse(2) [OF d(1)]
        hex_digit_inverse(2) [OF d(2)])
  show "list_all hex_digit_char (fmt_02x n)"
    using assms by (simp add: fmt_02x_byte hex_digit_inverse(1) [OF d(1)] hex_digit_inverse(1) [OF d(2)])
qed

lemma chan_1000_range:
  assumes "0 \<le> c" "c \<le> 255"
  shows "0 \<le> chan_1000 c" "chan_1000 c \<le> 1000"
proof -
  have "chan_1000 c = (2000 * c + 255) div 510" using assms by (rule chan_1000_int)
  moreover have "0 \<le> (2000 * c + 255) div 510" using assms by simp
  moreover have "(2000 * c + 255) div 510 \<le> (2000 * 255 + 255) div 510"
    using assms by (intro zdiv_mono1) simp_all
  ultimately show "0 \<le> chan_1000 c" "chan_1000 c \<le> 1000" by simp_all
qed

lemma chan_255_range:
  assumes "0 \<le> v" "v \<le> 1000"
  shows "0 \<le> chan_255 v" "chan_255 v \<le> 255"
proof -
  have A: "0 \<le> (51 * v + 100) div 200" using assms by simp
  have B: "(51 * v + 100) div 200 \<le> (51 * 1000 + 100) div 200"
    using assms by (intro zdiv_mono1) simp_all
  show "0 \<le> chan_255 v" "chan_255 v \<le> 255"
  proof -
    consider "v mod 200 \<noteq> 100" | "v = 100" | "v = 300" | "v = 500" | "v = 700" | "v = 900"
      using tie_values [OF assms] by blast
    then have "0 \<le> chan_255 v \<and> chan_255 v \<le> 255"
    proof cases
      case 1
      then have "chan_255 v = (51 * v + 100) div 200" using assms by (simp add: chan_255_int)
      then show ?thesis using A B by simp
    qed (simp_all add: chan_255_100 chan_255_300 chan_255_500 chan_255_700 chan_255_900)
    then show "0 \<le> chan_255 v" "chan_255 v \<le> 255" by simp_all
  qed
qed

lemma tie_mod:
  fixes v :: int
  assumes "v mod 200 = 100"
  shows "(51 * v + 100) mod 200 = 0"
proof -
  have "v = 200 * (v div 200) + v mod 200" by simp
  then have "v = 200 * (v div 200) + 100" using assms by simp
  then have "51 * v + 100 = 200 * (51 * (v div 200) + 26)" by simp
  then show ?thesis by (simp only: mod_mult_self1_is_0)
qed

lemma chan_roundtrip:
  assumes "0 \<le> c" "c \<le> 255"
  shows "chan_255 (chan_1000 c) = c"
proof -
  define s where "s = (2000 * c + 255) div 510"
  define r where "r = (2000 * c + 255) mod 510"
  define z where "z = 51 * s - 200 * c"
  have eq: "2000 * c + 255 = 510 * s + r" by (simp add: s_def r_def)
  have rb: "0 \<le> r" "r < 510" by (simp_all add: r_def)
  have s: "chan_1000 c = s" using assms by (simp add: chan_1000_int s_def)
  have sr: "0 \<le> s" "s \<le> 1000" using chan_1000_range [OF assms] s by simp_all
  have "10 * z = 255 - r" using eq by (simp add: z_def)
  then have z: "- 25 \<le> z" "z \<le> 25" using rb by linarith+
  have lo: "200 * c \<le> 51 * s + 100" and hi: "51 * s + 100 < 200 * c + 200"
    using z by (simp_all add: z_def)
  have q: "(51 * s + 100) div 200 = c"
    using lo hi by (simp add: div_pos_pos_trivial)
  have "(51 * s + 100) mod 200 = 51 * s + 100 - 200 * ((51 * s + 100) div 200)"
    by (simp add: minus_mult_div_eq_mod)
  then have "(51 * s + 100) mod 200 = z + 100" by (simp add: q z_def)
  then have "(51 * s + 100) mod 200 \<noteq> 0" using z by simp
  then have "s mod 200 \<noteq> 100" using tie_mod [of s] by blast
  then have "chan_255 s = (51 * s + 100) div 200" using sr by (simp add: chan_255_int)
  then show ?thesis by (simp add: s q)
qed

lemma fmt_02x_inj:
  assumes "0 \<le> x" "x \<le> 255" "0 \<le> y" "y \<le> 255" "fmt_02x x = fmt_02x y"
  shows "x = y"
proof -
  have "x = pair_byte (fmt_02x x)" using assms(1,2) by (simp only: pair_byte_fmt(1))
  also have "\<dots> = pair_byte (fmt_02x y)" by (simp only: assms(5))
  also have "\<dots> = y" using assms(3,4) by (simp only: pair_byte_fmt(1))
  finally show ?thesis .
qed

lemma fmt_02x_length: "0 \<le> x \<Longrightarrow> x \<le> 255 \<Longrightarrow> length (fmt_02x x) = 2"
  by (simp add: fmt_02x_byte)

lemma three_pairs_eq:
  assumes "length a = 2" "length a' = 2" "length b = 2" "length b' = 2"
  shows "(a @ b @ c = a' @ b' @ c') \<longleftrightarrow> (a = a' \<and> b = b' \<and> c = c')"
  using assms by simp


section \<open>C1: the rounding rule of the two conversions\<close>

text \<open>
  C1, as stated, fails: at the scaled channel 300 the exact value \<open>300 / 1000 * 255\<close> is
  the tie 76.5; \<^verbatim>\<open>round\<close> returns the even neighbour 76 and \<^verbatim>\<open>rgb1000_to_hex\<close>
  prints \<^verbatim>\<open>4c\<close>, where rounding half away from zero gives 77.
\<close>

theorem ties_to_even_300:
  "chan_255 300 = 76 \<and> round_half_away (of_int 300 / 1000 * 255) = 77
   \<and> rgb1000_to_hex 300 0 0 = Inr ''#4c0000''"
proof (intro conjI)
  show "chan_255 300 = 76" by (rule chan_255_300)
  show "round_half_away (of_int 300 / 1000 * 255) = 77" by (rule ties_half_away(2))
  have "fmt_02x 76 = ''4c''" "fmt_02x 0 = ''00''" by code_simp+
  then show "rgb1000_to_hex 300 0 0 = Inr ''#4c0000''"
    by (simp add: chan_255_300 rgb1000_to_hex_def chan_255_zero)
qed

text \<open>
  C1 (amended): for every byte channel \<open>c\<close> in 0..255, \<^verbatim>\<open>round(c / 255 * 1000)\<close>
  as computed in floats is the integer nearest to the exact quotient; no tie occurs, so
  rounding half away from zero and half to even agree there, and \<^verbatim>\<open>hex_to_1000\<close>
  maps the three bytes of \<^verbatim>\<open>#rrggbb\<close> (six hexadecimal digits) to these values.
  For every scaled channel \<open>v\<close> in 0..1000, \<^verbatim>\<open>round(v / 1000 * 255)\<close> as
  computed in floats is the exact quotient rounded to nearest with ties to even, and
  \<^verbatim>\<open>rgb1000_to_hex\<close> prints these values for channels in range; the result agrees
  with rounding half away from zero except at the channel values 300 and 700.
\<close>

theorem rounding_policy:
  assumes "0 \<le> c" "c \<le> 255" "0 \<le> v" "v \<le> 1000"
    and "hex_digit_char a1" "hex_digit_char a2" "hex_digit_char b1" "hex_digit_char b2"
      "hex_digit_char c1" "hex_digit_char c2"
    and "0 \<le> r" "r \<le> 1000" "0 \<le> g" "g \<le> 1000" "0 \<le> b" "b \<le> 1000"
  shows "chan_1000 c = round_half_away (of_int c / 255 * 1000)
       \<and> chan_1000 c = round_half_even (of_int c / 255 * 1000)
       \<and> chan_255 v = round_half_even (of_int v / 1000 * 255)
       \<and> (chan_255 v = round_half_away (of_int v / 1000 * 255) \<longleftrightarrow> v \<noteq> 300 \<and> v \<noteq> 700)
       \<and> hex_to_1000 (CHR ''#'' # [a1, a2, b1, b2, c1, c2])
           = Inr (round_half_away (of_int (pair_byte [a1, a2]) / 255 * 1000),
                  round_half_away (of_int (pair_byte [b1, b2]) / 255 * 1000),
                  round_half_away (of_int (pair_byte [c1, c2]) / 255 * 1000))
       \<and> rgb1000_to_hex r g b
           = Inr (CHR ''#'' # fmt_02x (round_half_even (of_int r / 1000 * 255))
                  @ fmt_02x (round_half_even (of_int g / 1000 * 255))
                  @ fmt_02x (round_half_even (of_int b / 1000 * 255)))
       \<and> (rgb1000_to_hex r g b
           = Inr (CHR ''#'' # fmt_02x (round_half_away (of_int r / 1000 * 255))
                  @ fmt_02x (round_half_away (of_int g / 1000 * 255))
                  @ fmt_02x (round_half_away (of_int b / 1000 * 255)))
          \<longleftrightarrow> r \<noteq> 300 \<and> r \<noteq> 700 \<and> g \<noteq> 300 \<and> g \<noteq> 700 \<and> b \<noteq> 300 \<and> b \<noteq> 700)"
proof -
  have ev: "chan_255 x = round_half_even (of_int x / 1000 * 255)
       \<and> (chan_255 x = round_half_away (of_int x / 1000 * 255) \<longleftrightarrow> x \<noteq> 300 \<and> x \<noteq> 700)"
    if x: "0 \<le> x" "x \<le> 1000" for x
  proof (cases "x mod 200 = 100")
    case True
    then consider "x = 100" | "x = 300" | "x = 500" | "x = 700" | "x = 900"
      using tie_values [OF x] by blast
    then show ?thesis
    proof cases
      case 1 then show ?thesis by (simp only: chan_255_100 ties_half_even ties_half_away) simp
    next
      case 2 then show ?thesis by (simp only: chan_255_300 ties_half_even ties_half_away) simp
    next
      case 3 then show ?thesis by (simp only: chan_255_500 ties_half_even ties_half_away) simp
    next
      case 4 then show ?thesis by (simp only: chan_255_700 ties_half_even ties_half_away) simp
    next
      case 5 then show ?thesis by (simp only: chan_255_900 ties_half_even ties_half_away) simp
    qed
  next
    case False
    then have "x \<noteq> 300" "x \<noteq> 700" by auto
    then show ?thesis using chan_255_exact [OF x False] by blast
  qed
  have away: "chan_1000 (pair_byte [p, q]) = round_half_away (of_int (pair_byte [p, q]) / 255 * 1000)"
    if "hex_digit_char p" "hex_digit_char q" for p q
    using pair_byte_range(1,2) [OF that] by (rule chan_1000_exact(2))
  have H: "hex_to_1000 (CHR ''#'' # [a1, a2, b1, b2, c1, c2])
           = Inr (round_half_away (of_int (pair_byte [a1, a2]) / 255 * 1000),
                  round_half_away (of_int (pair_byte [b1, b2]) / 255 * 1000),
                  round_half_away (of_int (pair_byte [c1, c2]) / 255 * 1000))"
    using hex_to_1000_digits [OF assms(5-10), of 1]
    by (simp only: away assms(5-10) replicate.simps One_nat_def append.simps)
  have R: "rgb1000_to_hex r g b
       = Inr (CHR ''#'' # fmt_02x (chan_255 r) @ fmt_02x (chan_255 g) @ fmt_02x (chan_255 b))"
    using assms(11-16) by (simp add: rgb1000_to_hex_def)
  have E: "rgb1000_to_hex r g b
           = Inr (CHR ''#'' # fmt_02x (round_half_even (of_int r / 1000 * 255))
                  @ fmt_02x (round_half_even (of_int g / 1000 * 255))
                  @ fmt_02x (round_half_even (of_int b / 1000 * 255)))"
    using ev [OF assms(11,12)] ev [OF assms(13,14)] ev [OF assms(15,16)] by (simp only: R)
  have rng: "0 \<le> chan_255 x \<and> chan_255 x \<le> 255
      \<and> 0 \<le> round_half_away (of_int x / 1000 * 255)
      \<and> round_half_away (of_int x / 1000 * 255) \<le> 255"
    if x: "0 \<le> x" "x \<le> 1000" for x
  proof -
    have c: "0 \<le> chan_255 x" "chan_255 x \<le> 255" using chan_255_range [OF x] by simp_all
    consider "chan_255 x = round_half_away (of_int x / 1000 * 255)" | "x = 300" | "x = 700"
      using ev [OF x] by blast
    then show ?thesis
    proof cases
      case 1 then show ?thesis using c by simp
    next
      case 2 then show ?thesis using c by (simp only: ties_half_away) simp
    next
      case 3 then show ?thesis using c by (simp only: ties_half_away) simp
    qed
  qed
  have same: "fmt_02x (chan_255 x) = fmt_02x (round_half_away (of_int x / 1000 * 255))
      \<longleftrightarrow> x \<noteq> 300 \<and> x \<noteq> 700"
    if x: "0 \<le> x" "x \<le> 1000" for x
    using ev [OF x] rng [OF x] fmt_02x_inj by metis
  have len: "length (fmt_02x (chan_255 x)) = 2"
    "length (fmt_02x (round_half_away (of_int x / 1000 * 255))) = 2"
    if x: "0 \<le> x" "x \<le> 1000" for x
    using rng [OF x] by (simp_all add: fmt_02x_length)
  have A: "(rgb1000_to_hex r g b
           = Inr (CHR ''#'' # fmt_02x (round_half_away (of_int r / 1000 * 255))
                  @ fmt_02x (round_half_away (of_int g / 1000 * 255))
                  @ fmt_02x (round_half_away (of_int b / 1000 * 255)))
          \<longleftrightarrow> r \<noteq> 300 \<and> r \<noteq> 700 \<and> g \<noteq> 300 \<and> g \<noteq> 700 \<and> b \<noteq> 300 \<and> b \<noteq> 700)"
    unfolding R sum.inject list.inject
    using three_pairs_eq [OF len(1) [OF assms(11,12)] len(2) [OF assms(11,12)]
        len(1) [OF assms(13,14)] len(2) [OF assms(13,14)],
        of "fmt_02x (chan_255 b)" "fmt_02x (round_half_away (of_int b / 1000 * 255))"]
      same [OF assms(11,12)] same [OF assms(13,14)] same [OF assms(15,16)]
    by blast
  show ?thesis
    using chan_1000_exact [OF assms(1,2)] ev [OF assms(3,4)] H E A by blast
qed


text \<open>The theorem at the colour \<^verbatim>\<open>#80ff00\<close> and at the triplet 500, 700, 0.\<close>

theorem rounding_policy_witness:
  "chan_1000 128 = round_half_away (of_int 128 / 255 * 1000)
   \<and> chan_1000 128 = round_half_even (of_int 128 / 255 * 1000)
   \<and> chan_255 700 = round_half_even (of_int 700 / 1000 * 255)
   \<and> (chan_255 700 = round_half_away (of_int 700 / 1000 * 255) \<longleftrightarrow> (700::int) \<noteq> 300 \<and> (700::int) \<noteq> 700)
   \<and> hex_to_1000 (CHR ''#'' # [CHR ''8'', CHR ''0'', CHR ''f'', CHR ''f'', CHR ''0'', CHR ''0''])
       = Inr (round_half_away (of_int (pair_byte [CHR ''8'', CHR ''0'']) / 255 * 1000),
              round_half_away (of_int (pair_byte [CHR ''f'', CHR ''f'']) / 255 * 1000),
              round_half_away (of_int (pair_byte [CHR ''0'', CHR ''0'']) / 255 * 1000))
   \<and> rgb1000_to_hex 500 700 0
       = Inr (CHR ''#'' # fmt_02x (round_half_even (of_int 500 / 1000 * 255))
              @ fmt_02x (round_half_even (of_int 700 / 1000 * 255))
              @ fmt_02x (round_half_even (of_int 0 / 1000 * 255)))
   \<and> (rgb1000_to_hex 500 700 0
       = Inr (CHR ''#'' # fmt_02x (round_half_away (of_int 500 / 1000 * 255))
              @ fmt_02x (round_half_away (of_int 700 / 1000 * 255))
              @ fmt_02x (round_half_away (of_int 0 / 1000 * 255)))
      \<longleftrightarrow> (500::int) \<noteq> 300 \<and> (500::int) \<noteq> 700 \<and> (700::int) \<noteq> 300 \<and> (700::int) \<noteq> 700
          \<and> (0::int) \<noteq> 300 \<and> (0::int) \<noteq> 700)"
  by (rule rounding_policy) (simp_all add: hex_digit_char_def)

section \<open>The codec on strings\<close>

lemma valid_hex6_elems:
  assumes "valid_hex6 s"
  obtains a1 a2 b1 b2 c1 c2 where "s = [a1, a2, b1, b2, c1, c2]"
    "hex_digit_char a1" "hex_digit_char a2" "hex_digit_char b1" "hex_digit_char b2"
    "hex_digit_char c1" "hex_digit_char c2"
proof -
  have "length s = Suc (Suc (Suc (Suc (Suc (Suc 0)))))" using assms by (simp add: valid_hex6_def)
  then obtain a1 a2 b1 b2 c1 c2 where s: "s = [a1, a2, b1, b2, c1, c2]"
    by (auto simp: length_Suc_conv)
  then show ?thesis using assms that by (simp add: valid_hex6_def)
qed

lemma digit_val_lower: "hex_digit_char c \<Longrightarrow> digit_val (ascii_lower c) = digit_val c"
  using hex_digit_lower [of c] hex_digit_inverse(2) [OF hex_digit_char_val, of c] by simp

lemma fmt_02x_pair:
  assumes "hex_digit_char a" "hex_digit_char b"
  shows "fmt_02x (pair_byte [a, b]) = [ascii_lower a, ascii_lower b]"
proof -
  have v: "digit_val a < 16" "digit_val b < 16" using assms by (simp_all add: hex_digit_char_val)
  have p: "pair_byte [a, b] = int (digit_val a * 16 + digit_val b)"
    using assms by (rule pair_byte_range(3))
  have "nat (pair_byte [a, b]) = digit_val a * 16 + digit_val b" by (simp only: p nat_int)
  then have "nat (pair_byte [a, b]) div 16 = digit_val a" "nat (pair_byte [a, b]) mod 16 = digit_val b"
    using v by simp_all
  then show ?thesis
    using pair_byte_range(1,2) [OF assms] assms by (simp add: fmt_02x_byte hex_digit_lower)
qed

lemma roundtrip_digits:
  assumes "hex_digit_char a1" "hex_digit_char a2" "hex_digit_char b1" "hex_digit_char b2"
    "hex_digit_char c1" "hex_digit_char c2"
  shows "roundtrip (replicate n (CHR ''#'') @ [a1, a2, b1, b2, c1, c2])
       = Inr (CHR ''#'' # map ascii_lower [a1, a2, b1, b2, c1, c2])"
proof -
  have r: "0 \<le> pair_byte [a1, a2]" "pair_byte [a1, a2] \<le> 255"
    "0 \<le> pair_byte [b1, b2]" "pair_byte [b1, b2] \<le> 255"
    "0 \<le> pair_byte [c1, c2]" "pair_byte [c1, c2] \<le> 255"
    using assms by (simp_all add: pair_byte_range(1,2))
  show ?thesis
    using r assms
    by (simp add: roundtrip_def hex_to_1000_digits rgb1000_to_hex_def chan_1000_range
        chan_roundtrip fmt_02x_pair)
qed

lemma pinned_values:
  "hex_to_1000 ''#ff0000'' = Inr (1000, 0, 0)"
  "hex_to_1000 ''#000000'' = Inr (0, 0, 0)"
  "hex_to_1000 ''#ffffff'' = Inr (1000, 1000, 1000)"
  "hex_to_1000 ''#808080'' = Inr (502, 502, 502)"
  "rgb1000_to_hex 1000 0 0 = Inr ''#ff0000''"
  "rgb1000_to_hex 0 0 0 = Inr ''#000000''"
  "rgb1000_to_hex 502 502 502 = Inr ''#808080''"
  by code_simp+

lemma codec_errors:
  "hex_to_1000 h = Inl InvalidFormat \<longleftrightarrow> length (lstrip_chars (CHR ''#'') h) \<noteq> 6"
  "rgb1000_to_hex r g b = Inl OutOfRange
     \<longleftrightarrow> \<not> (0 \<le> r \<and> r \<le> 1000 \<and> 0 \<le> g \<and> g \<le> 1000 \<and> 0 \<le> b \<and> b \<le> 1000)"
  by (auto simp: hex_to_1000_def rgb1000_to_hex_def Let_def split: option.splits)

lemma codec_error_examples:
  "hex_to_1000 ''#12'' = Inl InvalidFormat"
  "hex_to_1000 ''#gggggg'' = Inl InvalidDigits"
  "rgb1000_to_hex 1001 0 0 = Inl OutOfRange"
  by code_simp+


section \<open>C2: the round trip of a hex colour\<close>

text \<open>
  C2: for every hex colour \<^verbatim>\<open>#rrggbb\<close> of six hexadecimal digits,
  \<^verbatim>\<open>rgb1000_to_hex(*hex_to_1000(h))\<close> succeeds and differs from \<open>h\<close> by at most one
  unit per byte channel. The code does better: the result has the same three bytes, and
  is \<open>h\<close> itself written in lower case. The pinned values of the specification hold:
  \<^verbatim>\<open>#ff0000\<close>, \<^verbatim>\<open>#000000\<close>, \<^verbatim>\<open>#ffffff\<close> and \<^verbatim>\<open>#808080\<close> convert to
  (1000,0,0), (0,0,0), (1000,1000,1000) and (502,502,502), and (1000,0,0), (0,0,0) and
  (502,502,502) convert back to \<^verbatim>\<open>#ff0000\<close>, \<^verbatim>\<open>#000000\<close> and \<^verbatim>\<open>#808080\<close>.
\<close>

theorem roundtrip_drift:
  assumes "valid_hex6 s"
  shows "roundtrip (CHR ''#'' # s) = Inr (CHR ''#'' # map ascii_lower s)
       \<and> byte_channels (CHR ''#'' # map ascii_lower s) = byte_channels (CHR ''#'' # s)
       \<and> within_one (CHR ''#'' # s) (CHR ''#'' # map ascii_lower s)
       \<and> hex_to_1000 ''#ff0000'' = Inr (1000, 0, 0)
       \<and> hex_to_1000 ''#000000'' = Inr (0, 0, 0)
       \<and> hex_to_1000 ''#ffffff'' = Inr (1000, 1000, 1000)
       \<and> hex_to_1000 ''#808080'' = Inr (502, 502, 502)
       \<and> rgb1000_to_hex 1000 0 0 = Inr ''#ff0000''
       \<and> rgb1000_to_hex 0 0 0 = Inr ''#000000''
       \<and> rgb1000_to_hex 502 502 502 = Inr ''#808080''"
proof -
  from assms obtain a1 a2 b1 b2 c1 c2 where s: "s = [a1, a2, b1, b2, c1, c2]"
    and d: "hex_digit_char a1" "hex_digit_char a2" "hex_digit_char b1" "hex_digit_char b2"
      "hex_digit_char c1" "hex_digit_char c2"
    by (rule valid_hex6_elems)
  have A: "roundtrip (CHR ''#'' # s) = Inr (CHR ''#'' # map ascii_lower s)"
    using roundtrip_digits [OF d, of 1] by (simp add: s)
  have B: "byte_channels (CHR ''#'' # map ascii_lower s) = byte_channels (CHR ''#'' # s)"
    using d by (simp add: s byte_channels_def pair_byte_def digits_value_def digit_val_lower)
  have C: "within_one (CHR ''#'' # s) (CHR ''#'' # map ascii_lower s)"
    unfolding within_one_def B by (simp split: prod.splits)
  show ?thesis using A B C pinned_values by blast
qed

text \<open>The round trip of \<^verbatim>\<open>#Ab09fE\<close>.\<close>

theorem roundtrip_drift_witness:
  "roundtrip ''#Ab09fE'' = Inr ''#ab09fe'' \<and> within_one ''#Ab09fE'' ''#ab09fe''"
proof -
  have v: "valid_hex6 ''Ab09fE''" by (simp add: valid_hex6_def hex_digit_char_def)
  have l: "map ascii_lower ''Ab09fE'' = ''ab09fe''" by code_simp
  show ?thesis using roundtrip_drift [OF v] unfolding l by blast
qed


section \<open>C10: every leading hash is stripped\<close>

text \<open>
  C10: \<^verbatim>\<open>lstrip("#")\<close> removes every leading \<^verbatim>\<open>#\<close>, so for six hexadecimal
  digits \<open>s\<close> and every \<open>n\<close>, the input of \<open>n\<close> hashes followed by \<open>s\<close> is
  accepted and converts to the same triplet as \<^verbatim>\<open>#\<close> followed by \<open>s\<close>.
\<close>

theorem strips_every_hash:
  assumes "valid_hex6 s"
  shows "hex_to_1000 (replicate n (CHR ''#'') @ s) = hex_to_1000 (CHR ''#'' # s)
       \<and> (\<exists>t. hex_to_1000 (replicate n (CHR ''#'') @ s) = Inr t)"
proof -
  from assms obtain a1 a2 b1 b2 c1 c2 where s: "s = [a1, a2, b1, b2, c1, c2]"
    and d: "hex_digit_char a1" "hex_digit_char a2" "hex_digit_char b1" "hex_digit_char b2"
      "hex_digit_char c1" "hex_digit_char c2"
    by (rule valid_hex6_elems)
  show ?thesis
    using hex_to_1000_digits [OF d, of n] hex_to_1000_digits [OF d, of 1] by (simp add: s)
qed

text \<open>Two hashes and no hash before \<^verbatim>\<open>ff0000\<close>.\<close>

theorem strips_every_hash_witness:
  "hex_to_1000 (replicate 2 (CHR ''#'') @ ''ff0000'') = hex_to_1000 (CHR ''#'' # ''ff0000'')
   \<and> hex_to_1000 (replicate 0 (CHR ''#'') @ ''ff0000'') = hex_to_1000 (CHR ''#'' # ''ff0000'')"
proof -
  have v: "valid_hex6 ''ff0000''" by (simp add: valid_hex6_def hex_digit_char_def)
  show ?thesis using strips_every_hash [OF v, of 2] strips_every_hash [OF v, of 0] by blast
qed


section \<open>C7: the errors of the codec\<close>

text \<open>
  C7 says that \<^verbatim>\<open>hex_to_1000\<close> fails exactly when some two-character pair is not
  valid hexadecimal. The pair \<^verbatim>\<open>-f\<close> is not, yet \<^verbatim>\<open>int("-f", 16)\<close> is \<open>- 15\<close>,
  so \<^verbatim>\<open>#-f0000\<close> is accepted and converts to a negative channel. (The other two
  errors are raised exactly as stated: see \<open>codec_errors\<close>.)
\<close>

theorem signed_pair_accepted:
  "hex_to_1000 ''#-f0000'' = Inr (- 59, 0, 0) \<and> \<not> hex_digit_char (CHR ''-'')"
proof
  show "hex_to_1000 ''#-f0000'' = Inr (- 59, 0, 0)" by code_simp
  show "\<not> hex_digit_char (CHR ''-'')" by (simp add: hex_digit_char_def)
qed

section \<open>C3: inserting into the history\<close>










section \<open>C5: loading the history file\<close>




end
